theory Spec2Isabelle
  imports Main "HOL-Library.Word"
begin

section \<open>Identity and configuration model of \<open>raft_core.hpp\<close>\<close>

text \<open>
  \<open>raft_term_t\<close> and \<open>raft_log_index_t\<close> are \<open>uint64_t\<close>; \<open>size_t\<close> is taken as the
  64-bit unsigned type of an LP64 platform. All three wrap around.
\<close>

type_synonym raft_term_t = "64 word"
type_synonym raft_log_index_t = "64 word"
type_synonym size_t = "64 word"

text \<open>
  Modelled from the spec: \<open>uuid_u\<close> is declared in \<open>containers/uuid.hpp\<close>, which is not
  among the source files. The spec calls a member id an opaque unique identity,
  UUID-equivalent; a UUID is a 128-bit value, and \<open>==\<close> and \<open><\<close> are taken as equality
  and the unsigned order of that value.
\<close>

type_synonym uuid_u = "128 word"

text \<open>
  Modelled from the spec: \<open>nil_uuid()\<close> is declared in \<open>containers/uuid.hpp\<close> as well. It is
  the nil UUID, the one whose bits are all clear; the spec's \<open>voted_for = nil\<close> is a member
  id holding it.
\<close>

definition nil_uuid :: uuid_u where
  "nil_uuid = 0"

datatype raft_member_id_t = raft_member_id_t (uuid: uuid_u)

definition default_member_id :: raft_member_id_t where
  "default_member_id = raft_member_id_t nil_uuid"

definition is_nil :: "raft_member_id_t \<Rightarrow> bool" where
  "is_nil m = (uuid m = nil_uuid)"

definition member_less :: "raft_member_id_t \<Rightarrow> raft_member_id_t \<Rightarrow> bool" where
  "member_less a b = (uuid a < uuid b)"

subsection \<open>\<open>std::set<raft_member_id_t>\<close>\<close>

text \<open>
  A \<open>std::set\<close> is kept as the list of its elements in iteration order, which is strictly
  increasing under \<open>operator<\<close>. \<open>std_set_inv\<close> is that representation invariant.
  \<open>set_count\<close> is \<open>std::set::count\<close>: the number of stored elements equivalent to the key
  under the comparator, which is 0 or 1. \<open>set_insert\<close> is \<open>std::set::insert\<close> of one
  element (no effect when an equivalent element is present) and \<open>set_insert_range\<close> the
  iterator-range overload.
\<close>

type_synonym member_set = "raft_member_id_t list"

definition std_set_inv :: "member_set \<Rightarrow> bool" where
  "std_set_inv xs = sorted_wrt member_less xs"

definition set_count :: "member_set \<Rightarrow> raft_member_id_t \<Rightarrow> size_t" where
  "set_count xs m =
     (if list_ex (\<lambda>x. \<not> member_less x m \<and> \<not> member_less m x) xs then 1 else 0)"

definition set_size :: "member_set \<Rightarrow> size_t" where
  "set_size xs = of_nat (length xs)"

fun set_insert :: "raft_member_id_t \<Rightarrow> member_set \<Rightarrow> member_set" where
  "set_insert x [] = [x]"
| "set_insert x (y # ys) =
     (if member_less x y then x # y # ys
      else if member_less y x then y # set_insert x ys
      else y # ys)"

definition set_insert_range :: "member_set \<Rightarrow> member_set \<Rightarrow> member_set" where
  "set_insert_range src dst = fold set_insert src dst"

subsection \<open>\<open>raft_config_t\<close>\<close>

record raft_config_t =
  voting_members :: member_set
  non_voting_members :: member_set

definition get_all_members :: "raft_config_t \<Rightarrow> member_set" where
  "get_all_members c =
     set_insert_range (non_voting_members c) (set_insert_range (voting_members c) [])"

definition is_member :: "raft_config_t \<Rightarrow> raft_member_id_t \<Rightarrow> bool" where
  "is_member c member =
     (set_count (voting_members c) member = 1 \<or> set_count (non_voting_members c) member = 1)"

text \<open>The loop of \<open>is_quorum\<close>: \<open>votes += voting_members.count(m)\<close> for each \<open>m\<close> in turn.\<close>

fun count_votes :: "member_set \<Rightarrow> member_set \<Rightarrow> size_t \<Rightarrow> size_t" where
  "count_votes voting [] votes = votes"
| "count_votes voting (m # ms) votes = count_votes voting ms (votes + set_count voting m)"

definition is_quorum :: "raft_config_t \<Rightarrow> member_set \<Rightarrow> bool" where
  "is_quorum c members =
     (let votes = count_votes (voting_members c) members 0
      in votes * 2 > set_size (voting_members c))"

definition is_valid_leader :: "raft_config_t \<Rightarrow> raft_member_id_t \<Rightarrow> bool" where
  "is_valid_leader c member = (set_count (voting_members c) member = 1)"

subsection \<open>\<open>raft_complex_config_t\<close>\<close>

record raft_complex_config_t =
  config :: raft_config_t
  new_config :: "raft_config_t option"

definition is_joint_consensus :: "raft_complex_config_t \<Rightarrow> bool" where
  "is_joint_consensus cc = (new_config cc \<noteq> None)"

text \<open>
  \<open>new_config->\<close> reads the optional's value, \<open>the (new_config cc)\<close>; every use is
  guarded by \<open>is_joint_consensus()\<close>, as in the source.
\<close>

definition get_all_members_complex :: "raft_complex_config_t \<Rightarrow> member_set" where
  "get_all_members_complex cc =
     (let members = get_all_members (config cc)
      in if is_joint_consensus cc
         then (let members2 = get_all_members (the (new_config cc))
               in set_insert_range members2 members)
         else members)"

definition is_member_complex :: "raft_complex_config_t \<Rightarrow> raft_member_id_t \<Rightarrow> bool" where
  "is_member_complex cc member =
     (is_member (config cc) member \<or>
      (is_joint_consensus cc \<and> is_member (the (new_config cc)) member))"

definition is_quorum_complex :: "raft_complex_config_t \<Rightarrow> member_set \<Rightarrow> bool" where
  "is_quorum_complex cc members =
     (if is_joint_consensus cc
      then is_quorum (config cc) members \<and> is_quorum (the (new_config cc)) members
      else is_quorum (config cc) members)"

definition is_valid_leader_complex :: "raft_complex_config_t \<Rightarrow> raft_member_id_t \<Rightarrow> bool" where
  "is_valid_leader_complex cc member =
     (is_valid_leader (config cc) member \<or>
      (is_joint_consensus cc \<and> is_valid_leader (the (new_config cc)) member))"

section \<open>Log and persistent state\<close>

text \<open>The enumerator \<open>config\<close> is \<open>config_entry\<close> here, \<open>config\<close> being a field name.\<close>

datatype raft_log_entry_type_t = regular | config_entry | noop

text \<open>
  The fields of \<open>raft_log_entry_t\<close> are \<open>type\<close>, \<open>term\<close>, \<open>change\<close> and \<open>config\<close>; they
  carry the prefix \<open>entry_\<close> here. \<open>'c\<close> is \<open>state_t::change_t\<close>.
\<close>

record 'c raft_log_entry_t =
  entry_type :: raft_log_entry_type_t
  entry_term :: raft_term_t
  entry_change :: "'c option"
  entry_config :: "raft_complex_config_t option"

text \<open>
  \<open>guarantee(cond, msg)\<close> aborts the process when \<open>cond\<close> is false; the abort is the error
  value \<open>guarantee_failed msg\<close>. Indexing or erasing a \<open>std::deque\<close> outside its bounds is
  undefined behaviour, kept as a separate error value so that it is never mistaken for a
  result.
\<close>

datatype error = guarantee_failed string | undefined_behaviour

definition deque_at :: "'a list \<Rightarrow> size_t \<Rightarrow> error + 'a" where
  "deque_at xs k = (if unat k < length xs then Inr (xs ! unat k) else Inl undefined_behaviour)"

text \<open>\<open>deque_erase xs a b\<close> is \<open>xs.erase(xs.begin() + a, xs.begin() + b)\<close>.\<close>

definition deque_erase :: "'a list \<Rightarrow> nat \<Rightarrow> nat \<Rightarrow> error + 'a list" where
  "deque_erase xs a b =
     (if a \<le> b \<and> b \<le> length xs then Inr (take a xs @ drop b xs) else Inl undefined_behaviour)"

record 'c raft_log_t =
  prev_index :: raft_log_index_t
  prev_term :: raft_term_t
  entries :: "'c raft_log_entry_t list"

definition get_latest_index :: "'c raft_log_t \<Rightarrow> raft_log_index_t" where
  "get_latest_index l = prev_index l + of_nat (length (entries l))"

definition get_entry_ref :: "'c raft_log_t \<Rightarrow> raft_log_index_t \<Rightarrow> error + 'c raft_log_entry_t" where
  "get_entry_ref l index =
     (if \<not> index > prev_index l then Inl (guarantee_failed ''the log doesn't go back this far'')
      else if \<not> index \<le> get_latest_index l
        then Inl (guarantee_failed ''the log doesn't go forward this far'')
      else deque_at (entries l) (index - prev_index l - 1))"

definition get_entry_term :: "'c raft_log_t \<Rightarrow> raft_log_index_t \<Rightarrow> error + raft_term_t" where
  "get_entry_term l index =
     (if \<not> index \<ge> prev_index l then Inl (guarantee_failed ''the log doesn't go back this far'')
      else if \<not> index \<le> get_latest_index l
        then Inl (guarantee_failed ''the log doesn't go forward this far'')
      else if index = prev_index l then Inr (prev_term l)
      else (case get_entry_ref l index of Inl e \<Rightarrow> Inl e | Inr en \<Rightarrow> Inr (entry_term en)))"

definition delete_entries_from :: "'c raft_log_t \<Rightarrow> raft_log_index_t \<Rightarrow> error + 'c raft_log_t" where
  "delete_entries_from l index =
     (if \<not> index > prev_index l then Inl (guarantee_failed ''the log doesn't go back this far'')
      else if \<not> index \<le> get_latest_index l
        then Inl (guarantee_failed ''the log doesn't go forward this far'')
      else (case deque_erase (entries l) (unat (index - prev_index l - 1)) (length (entries l)) of
              Inl e \<Rightarrow> Inl e
            | Inr es \<Rightarrow> Inr (l\<lparr>entries := es\<rparr>)))"

definition delete_entries_to :: "'c raft_log_t \<Rightarrow> raft_log_index_t \<Rightarrow> error + 'c raft_log_t" where
  "delete_entries_to l index =
     (if \<not> index > prev_index l then Inl (guarantee_failed ''the log doesn't go back this far'')
      else if \<not> index \<le> get_latest_index l
        then Inl (guarantee_failed ''the log doesn't go forward this far'')
      else (case get_entry_term l index of
              Inl e \<Rightarrow> Inl e
            | Inr index_term \<Rightarrow>
                (case deque_erase (entries l) 0 (unat (index - prev_index l)) of
                   Inl e \<Rightarrow> Inl e
                 | Inr es \<Rightarrow> Inr (l\<lparr>entries := es, prev_index := index, prev_term := index_term\<rparr>))))"

text \<open>\<open>raft_log_t::append\<close>; the name \<open>append\<close> is the list function's.\<close>

definition append_entry :: "'c raft_log_t \<Rightarrow> 'c raft_log_entry_t \<Rightarrow> 'c raft_log_t" where
  "append_entry l entry = l\<lparr>entries := entries l @ [entry]\<rparr>"

text \<open>\<open>'s\<close> is \<open>state_t\<close> and \<open>'c\<close> its \<open>change_t\<close>.\<close>

record ('s, 'c) raft_persistent_state_t =
  current_term :: raft_term_t
  voted_for :: raft_member_id_t
  snapshot_state :: 's
  snapshot_config :: raft_complex_config_t
  log :: "'c raft_log_t"

text \<open>
  Modelled from the spec: \<open>raft_persistent_state_t::make_initial\<close> is only declared in
  \<open>raft_core.hpp\<close>; its body is not among the source files. The spec gives the value it
  returns: term 0, no vote, the given state as snapshot, the given config as a single
  (non-joint) configuration, and an empty log based at index 0 with term 0.
\<close>

definition make_initial :: "'s \<Rightarrow> raft_config_t \<Rightarrow> ('s, 'c) raft_persistent_state_t" where
  "make_initial initial_state initial_config =
     \<lparr>current_term = 0,
      voted_for = default_member_id,
      snapshot_state = initial_state,
      snapshot_config = \<lparr>config = initial_config, new_config = None\<rparr>,
      log = \<lparr>prev_index = 0, prev_term = 0, entries = []\<rparr>\<rparr>"

section \<open>Facts about sets of members and the quorum count\<close>

lemma member_equiv_iff: "(\<not> member_less x m \<and> \<not> member_less m x) = (x = m)"
  by (cases x; cases m) (auto simp: member_less_def)

lemma set_count_eq: "set_count xs m = (if m \<in> set xs then 1 else 0)"
  by (simp add: set_count_def member_equiv_iff list_ex_iff)

lemma std_set_inv_distinct: "std_set_inv xs \<Longrightarrow> distinct xs"
  unfolding std_set_inv_def
  by (induction xs) (auto simp: member_less_def)

lemma count_votes_eq:
  "count_votes voting ms v = v + of_nat (length (filter (\<lambda>m. m \<in> set voting) ms))"
  by (induction ms arbitrary: v) (simp_all add: set_count_eq)

lemma filter_card: "distinct ms \<Longrightarrow> length (filter (\<lambda>m. m \<in> A) ms) = card (set ms \<inter> A)"
proof -
  assume d: "distinct ms"
  have "set (filter (\<lambda>m. m \<in> A) ms) = set ms \<inter> A" by auto
  moreover have "distinct (filter (\<lambda>m. m \<in> A) ms)" using d by simp
  ultimately show ?thesis by (metis distinct_card)
qed

lemma votes_card:
  "std_set_inv ms \<Longrightarrow> count_votes voting ms 0 = of_nat (card (set ms \<inter> set voting))"
  by (simp add: count_votes_eq filter_card std_set_inv_distinct)

lemma is_quorum_votes:
  "std_set_inv ms \<Longrightarrow>
   is_quorum c ms = ((of_nat (card (set ms \<inter> set (voting_members c))) :: size_t) * 2
                      > of_nat (length (voting_members c)))"
  by (simp add: is_quorum_def votes_card set_size_def)

lemma quorum_arith:
  fixes k n :: nat
  assumes "k \<le> n" "n < 2 ^ 63"
  shows "((of_nat k :: 64 word) * 2 > of_nat n) = (2 * k > n)"
proof -
  have a: "unat (of_nat n :: 64 word) = n"
    using assms by (simp add: unat_of_nat)
  have "(of_nat k :: 64 word) * 2 = of_nat (k * 2)"
    by simp
  then have "unat ((of_nat k :: 64 word) * 2) = (k * 2) mod 2 ^ 64"
    by (simp only: unat_of_nat) simp
  also have "\<dots> = k * 2"
    using assms by simp
  finally show ?thesis
    using a by (simp add: word_less_nat_alt mult.commute)
qed

lemma is_quorum_empty_voting: "voting_members c = [] \<Longrightarrow> \<not> is_quorum c S"
  by (simp add: is_quorum_def count_votes_eq set_size_def)

lemma set_set_insert: "set (set_insert x xs) = insert x (set xs)"
proof (induction xs)
  case Nil
  then show ?case by simp
next
  case (Cons y ys)
  have "\<not> member_less x y \<Longrightarrow> \<not> member_less y x \<Longrightarrow> y = x"
    using member_equiv_iff [of y x] by simp
  with Cons show ?case by auto
qed

lemma member_less_trans: "member_less a b \<Longrightarrow> member_less b c \<Longrightarrow> member_less a c"
  by (simp add: member_less_def)

lemma std_set_inv_insert: "std_set_inv xs \<Longrightarrow> std_set_inv (set_insert x xs)"
  unfolding std_set_inv_def
proof (induction xs)
  case Nil
  then show ?case by simp
next
  case (Cons y ys)
  show ?case
  proof (cases "member_less x y")
    case True
    then show ?thesis
      using Cons.prems by (auto intro: member_less_trans)
  next
    case False
    then show ?thesis
      using Cons by (auto simp: set_set_insert)
  qed
qed

lemma set_insert_range: "set (set_insert_range src dst) = set src \<union> set dst"
  unfolding set_insert_range_def
  by (induction src arbitrary: dst) (auto simp: set_set_insert)

lemma std_set_inv_insert_range:
  "std_set_inv dst \<Longrightarrow> std_set_inv (set_insert_range src dst)"
  unfolding set_insert_range_def
  by (induction src arbitrary: dst) (simp_all add: std_set_inv_insert)

lemma set_get_all_members:
  "set (get_all_members c) = set (voting_members c) \<union> set (non_voting_members c)"
  by (auto simp: get_all_members_def set_insert_range)

lemma std_set_inv_get_all_members: "std_set_inv (get_all_members c)"
proof -
  have "std_set_inv []"
    by (simp add: std_set_inv_def)
  then show ?thesis
    unfolding get_all_members_def by (intro std_set_inv_insert_range)
qed

lemma is_valid_leader_iff: "is_valid_leader c m = (m \<in> set (voting_members c))"
  by (simp add: is_valid_leader_def set_count_eq)

lemma is_quorum_cong:
  assumes "std_set_inv S" and "std_set_inv T"
    and "set T \<inter> set (voting_members c) = set S \<inter> set (voting_members c)"
  shows "is_quorum c T = is_quorum c S"
  using assms by (simp add: is_quorum_votes)


section \<open>Facts about log indices\<close>

lemma unat_latest:
  "unat (get_latest_index l) = (unat (prev_index l) + length (entries l)) mod 2 ^ 64"
  by (simp add: get_latest_index_def unat_word_ariths unat_of_nat mod_add_right_eq)

lemma wrap_bound:
  fixes a p n :: nat
  assumes "p \<le> a" and "a \<le> (p + n) mod 2 ^ 64" and "a < 2 ^ 64"
  shows "a - p \<le> n"
proof (cases "p + n < 2 ^ 64")
  case True
  then show ?thesis using assms by simp
next
  case False
  show ?thesis
  proof (cases "n < 2 ^ 64")
    case True
    with False have "(p + n) mod 2 ^ 64 = p + n - 2 ^ 64"
      using assms by (simp add: mod_if)
    then show ?thesis using assms True by simp
  next
    case False
    then show ?thesis using assms by simp
  qed
qed

lemma offset_le_length:
  assumes "prev_index l \<le> i" and "i \<le> get_latest_index l"
  shows "unat i - unat (prev_index l) \<le> length (entries l)"
proof -
  have a: "unat (prev_index l) \<le> unat i"
    using assms(1) by (simp add: word_le_nat_alt)
  have b: "unat i \<le> (unat (prev_index l) + length (entries l)) mod 2 ^ 64"
    using assms(2) by (simp add: word_le_nat_alt unat_latest)
  have c: "unat i < 2 ^ 64"
    using unsigned_less [of i] by simp
  show ?thesis by (rule wrap_bound [OF a b c])
qed

lemma unat_offset:
  fixes i p :: "64 word"
  assumes "p \<le> i"
  shows "unat (i - p) = unat i - unat p"
  using assms by (simp add: unat_sub)

lemma unat_offset_pred:
  fixes i p :: "64 word"
  assumes "p < i"
  shows "unat (i - p - 1) = unat i - unat p - 1"
proof -
  have "i - p \<noteq> 0" using assms by simp
  then have "unat (i - p - 1) = unat (i - p) - 1" by (rule unat_minus_one)
  then show ?thesis using assms by (simp add: unat_sub)
qed

lemma get_entry_ref_in_range:
  assumes "prev_index l < i" and "i \<le> get_latest_index l"
  shows "unat i - unat (prev_index l) - 1 < length (entries l)"
    and "get_entry_ref l i = Inr (entries l ! (unat i - unat (prev_index l) - 1))"
proof -
  have "unat (prev_index l) < unat i"
    using assms(1) by (simp add: word_less_nat_alt)
  moreover have "unat i - unat (prev_index l) \<le> length (entries l)"
    using assms by (simp add: offset_le_length)
  ultimately show lt: "unat i - unat (prev_index l) - 1 < length (entries l)"
    by arith
  then show "get_entry_ref l i = Inr (entries l ! (unat i - unat (prev_index l) - 1))"
    using assms by (simp add: get_entry_ref_def deque_at_def unat_offset_pred)
qed

lemma get_entry_term_prev:
  assumes "prev_index l \<le> get_latest_index l"
  shows "get_entry_term l (prev_index l) = Inr (prev_term l)"
  using assms by (simp add: get_entry_term_def)

lemma get_entry_term_in_range:
  assumes "prev_index l < i" and "i \<le> get_latest_index l"
  shows "get_entry_term l i = Inr (entry_term (entries l ! (unat i - unat (prev_index l) - 1)))"
proof -
  have "i \<noteq> prev_index l" and "prev_index l \<le> i"
    using assms(1) by simp_all
  then show ?thesis
    using assms(2) by (simp add: get_entry_term_def get_entry_ref_in_range(2) [OF assms])
qed

lemma delete_entries_to_in_range:
  assumes "prev_index l < i" and "i \<le> get_latest_index l"
  shows "delete_entries_to l i =
           Inr \<lparr>prev_index = i,
                prev_term = entry_term (entries l ! (unat i - unat (prev_index l) - 1)),
                entries = drop (unat i - unat (prev_index l)) (entries l)\<rparr>"
proof -
  have le: "prev_index l \<le> i"
    using assms(1) by simp
  have "unat i - unat (prev_index l) \<le> length (entries l)"
    using le assms(2) by (rule offset_le_length)
  then have "deque_erase (entries l) 0 (unat (i - prev_index l)) =
               Inr (drop (unat i - unat (prev_index l)) (entries l))"
    by (simp add: deque_erase_def unat_offset [OF le])
  then show ?thesis
    using assms by (simp add: delete_entries_to_def get_entry_term_in_range)
qed

lemma delete_entries_from_in_range:
  assumes "prev_index l < i" and "i \<le> get_latest_index l"
  shows "delete_entries_from l i =
           Inr (l\<lparr>entries := take (unat i - unat (prev_index l) - 1) (entries l)\<rparr>)"
proof -
  have "unat i - unat (prev_index l) - 1 < length (entries l)"
    using assms by (rule get_entry_ref_in_range(1))
  then have "deque_erase (entries l) (unat (i - prev_index l - 1)) (length (entries l)) =
               Inr (take (unat i - unat (prev_index l) - 1) (entries l))"
    by (simp add: deque_erase_def unat_offset_pred [OF assms(1)])
  then show ?thesis
    using assms by (simp add: delete_entries_from_def)
qed

lemma of_nat_offset:
  fixes i p :: "64 word"
  assumes "p \<le> i"
  shows "(of_nat (unat i - unat p) :: 64 word) = i - p"
proof -
  have "(of_nat (unat (i - p)) :: 64 word) = i - p"
    by simp
  then show ?thesis
    using assms by (simp add: unat_sub)
qed

section \<open>Claims about configurations\<close>

text \<open>
  C1. \<open>raft_config_t::is_quorum(S)\<close> is true exactly when twice the number of members of
  \<open>S\<close> that are voting members exceeds the number of voting members; with no voting
  member it is false for every \<open>S\<close>, the empty set included. Both sets satisfy the
  invariant of \<open>std::set\<close>, and the voting set has fewer than \<open>2 ^ 63\<close> elements, as
  every \<open>std::set\<close> in a 64-bit address space has (\<open>size()\<close> is at most \<open>max_size()\<close>,
  and one node takes more than two bytes), so that \<open>votes * 2\<close> stays within \<open>size_t\<close>.
\<close>

theorem is_quorum_majority:
  assumes "std_set_inv (voting_members c)" and "std_set_inv S"
    and "length (voting_members c) < 2 ^ 63"
  shows "is_quorum c S =
           (2 * card (set S \<inter> set (voting_members c)) > card (set (voting_members c)))
       \<and> \<not> is_quorum (c\<lparr>voting_members := []\<rparr>) S'"
proof -
  have d: "card (set (voting_members c)) = length (voting_members c)"
    using assms(1) by (simp add: std_set_inv_distinct distinct_card)
  have le: "card (set S \<inter> set (voting_members c)) \<le> length (voting_members c)"
    using d by (metis card_mono List.finite_set Int_lower2)
  have "is_quorum c S =
          (2 * card (set S \<inter> set (voting_members c)) > card (set (voting_members c)))"
    using quorum_arith [OF le assms(3)] by (simp add: is_quorum_votes [OF assms(2)] d)
  moreover have "\<not> is_quorum (c\<lparr>voting_members := []\<rparr>) S'"
    by (rule is_quorum_empty_voting) simp
  ultimately show ?thesis by simp
qed

theorem is_quorum_majority_witness:
  "is_quorum \<lparr>voting_members = [raft_member_id_t 1, raft_member_id_t 2, raft_member_id_t 3],
              non_voting_members = [raft_member_id_t 4]\<rparr>
             [raft_member_id_t 1, raft_member_id_t 3, raft_member_id_t 4]
   \<and> \<not> is_quorum \<lparr>voting_members = [raft_member_id_t 1, raft_member_id_t 2, raft_member_id_t 3],
              non_voting_members = [raft_member_id_t 4]\<rparr>
             [raft_member_id_t 3, raft_member_id_t 4]
   \<and> \<not> is_quorum \<lparr>voting_members = [], non_voting_members = [raft_member_id_t 4]\<rparr> []"
proof -
  let ?c = "\<lparr>voting_members = [raft_member_id_t 1, raft_member_id_t 2, raft_member_id_t 3],
              non_voting_members = [raft_member_id_t 4]\<rparr>"
  have v: "std_set_inv (voting_members ?c)"
    by (simp add: std_set_inv_def member_less_def)
  have s1: "std_set_inv [raft_member_id_t 1, raft_member_id_t 3, raft_member_id_t 4]"
    by (simp add: std_set_inv_def member_less_def)
  have s2: "std_set_inv [raft_member_id_t 3, raft_member_id_t 4]"
    by (simp add: std_set_inv_def member_less_def)
  have n: "length (voting_members ?c) < 2 ^ 63"
    by simp
  show ?thesis
    using is_quorum_majority [OF v s1 n, of "[]"] is_quorum_majority [OF v s2 n, of "[]"]
    by simp
qed

text \<open>
  C2. \<open>raft_complex_config_t::is_quorum(S)\<close> of a joint consensus is the conjunction of the
  old and the new configuration's \<open>is_quorum(S)\<close>; of a single configuration it is that
  configuration's \<open>is_quorum(S)\<close>.
\<close>

theorem is_quorum_complex_joint:
  "(is_joint_consensus cc \<longrightarrow>
      (\<exists>new. new_config cc = Some new
         \<and> is_quorum_complex cc S = (is_quorum (config cc) S \<and> is_quorum new S)))
   \<and> (\<not> is_joint_consensus cc \<longrightarrow>
        new_config cc = None \<and> is_quorum_complex cc S = is_quorum (config cc) S)"
  by (cases "new_config cc") (simp_all add: is_quorum_complex_def is_joint_consensus_def)

theorem is_quorum_complex_joint_witness:
  "\<not> is_quorum_complex
       \<lparr>config = \<lparr>voting_members = [raft_member_id_t 1, raft_member_id_t 2, raft_member_id_t 3],
                   non_voting_members = []\<rparr>,
        new_config = Some \<lparr>voting_members = [raft_member_id_t 3, raft_member_id_t 4,
                                               raft_member_id_t 5],
                           non_voting_members = []\<rparr>\<rparr>
       [raft_member_id_t 1, raft_member_id_t 2]
   \<and> is_quorum_complex
       \<lparr>config = \<lparr>voting_members = [raft_member_id_t 1, raft_member_id_t 2, raft_member_id_t 3],
                   non_voting_members = []\<rparr>,
        new_config = None\<rparr>
       [raft_member_id_t 1, raft_member_id_t 2]"
  using is_quorum_complex_joint
          [of "\<lparr>config = \<lparr>voting_members = [raft_member_id_t 1, raft_member_id_t 2,
                                             raft_member_id_t 3],
                          non_voting_members = []\<rparr>,
                new_config = Some \<lparr>voting_members = [raft_member_id_t 3, raft_member_id_t 4,
                                                      raft_member_id_t 5],
                                   non_voting_members = []\<rparr>\<rparr>"
              "[raft_member_id_t 1, raft_member_id_t 2]"]
        is_quorum_complex_joint
          [of "\<lparr>config = \<lparr>voting_members = [raft_member_id_t 1, raft_member_id_t 2,
                                             raft_member_id_t 3],
                          non_voting_members = []\<rparr>,
                new_config = None\<rparr>"
              "[raft_member_id_t 1, raft_member_id_t 2]"]
  by (simp add: is_joint_consensus_def is_quorum_def set_count_def member_less_def set_size_def)

text \<open>
  C6. \<open>get_all_members()\<close> of a joint consensus is the union of the members of the old and
  of the new configuration, and \<open>is_valid_leader(m)\<close> holds exactly when \<open>m\<close> is a valid
  leader of one of the two; for a single configuration both are that configuration's
  values, a valid leader being a voting member. The members of a configuration are its
  voting and non-voting members, and every result satisfies the invariant of \<open>std::set\<close>.
\<close>

theorem complex_config_members_and_leader:
  "set (get_all_members_complex \<lparr>config = old, new_config = Some new\<rparr>) =
     set (get_all_members old) \<union> set (get_all_members new)
   \<and> std_set_inv (get_all_members_complex \<lparr>config = old, new_config = Some new\<rparr>)
   \<and> is_valid_leader_complex \<lparr>config = old, new_config = Some new\<rparr> m =
       (is_valid_leader old m \<or> is_valid_leader new m)
   \<and> get_all_members_complex \<lparr>config = c, new_config = None\<rparr> = get_all_members c
   \<and> is_valid_leader_complex \<lparr>config = c, new_config = None\<rparr> m = is_valid_leader c m
   \<and> is_valid_leader c m = (m \<in> set (voting_members c))
   \<and> set (get_all_members c) = set (voting_members c) \<union> set (non_voting_members c)
   \<and> std_set_inv (get_all_members c)"
proof -
  have "set (get_all_members_complex \<lparr>config = old, new_config = Some new\<rparr>) =
          set (get_all_members old) \<union> set (get_all_members new)"
    by (auto simp: get_all_members_complex_def is_joint_consensus_def set_insert_range)
  moreover have "std_set_inv (get_all_members_complex \<lparr>config = old, new_config = Some new\<rparr>)"
    by (simp add: get_all_members_complex_def is_joint_consensus_def
        std_set_inv_insert_range std_set_inv_get_all_members)
  moreover have "is_valid_leader_complex \<lparr>config = old, new_config = Some new\<rparr> m =
                   (is_valid_leader old m \<or> is_valid_leader new m)"
    by (simp add: is_valid_leader_complex_def is_joint_consensus_def)
  moreover have "get_all_members_complex \<lparr>config = c, new_config = None\<rparr> = get_all_members c"
    by (simp add: get_all_members_complex_def is_joint_consensus_def)
  moreover have "is_valid_leader_complex \<lparr>config = c, new_config = None\<rparr> m =
                   is_valid_leader c m"
    by (simp add: is_valid_leader_complex_def is_joint_consensus_def)
  ultimately show ?thesis
    using is_valid_leader_iff [of c m] set_get_all_members [of c]
      std_set_inv_get_all_members [of c]
    by blast
qed

theorem complex_config_members_and_leader_witness:
  "get_all_members_complex
     \<lparr>config = \<lparr>voting_members = [raft_member_id_t 1, raft_member_id_t 3],
                 non_voting_members = [raft_member_id_t 2]\<rparr>,
      new_config = Some \<lparr>voting_members = [raft_member_id_t 3, raft_member_id_t 5],
                         non_voting_members = [raft_member_id_t 4]\<rparr>\<rparr> =
     [raft_member_id_t 1, raft_member_id_t 2, raft_member_id_t 3, raft_member_id_t 4,
      raft_member_id_t 5]
   \<and> is_valid_leader_complex
       \<lparr>config = \<lparr>voting_members = [raft_member_id_t 1, raft_member_id_t 3],
                   non_voting_members = [raft_member_id_t 2]\<rparr>,
        new_config = Some \<lparr>voting_members = [raft_member_id_t 3, raft_member_id_t 5],
                           non_voting_members = [raft_member_id_t 4]\<rparr>\<rparr>
       (raft_member_id_t 5)
   \<and> \<not> is_valid_leader_complex
       \<lparr>config = \<lparr>voting_members = [raft_member_id_t 1, raft_member_id_t 3],
                   non_voting_members = [raft_member_id_t 2]\<rparr>,
        new_config = None\<rparr>
       (raft_member_id_t 5)"
proof -
  let ?old = "\<lparr>voting_members = [raft_member_id_t 1, raft_member_id_t 3],
                non_voting_members = [raft_member_id_t 2]\<rparr>"
  let ?new = "\<lparr>voting_members = [raft_member_id_t 3, raft_member_id_t 5],
                non_voting_members = [raft_member_id_t 4]\<rparr>"
  have "get_all_members_complex \<lparr>config = ?old, new_config = Some ?new\<rparr> =
          [raft_member_id_t 1, raft_member_id_t 2, raft_member_id_t 3, raft_member_id_t 4,
           raft_member_id_t 5]"
    by (simp add: get_all_members_complex_def is_joint_consensus_def get_all_members_def
        set_insert_range_def member_less_def)
  then show ?thesis
    using complex_config_members_and_leader [of ?old ?new "raft_member_id_t 5" ?old]
    by (simp add: is_valid_leader_def set_count_def member_less_def)
qed

text \<open>
  C8. The quorum decision depends only on the voting members of \<open>S\<close>: \<open>is_quorum\<close> gives
  the same answer on \<open>S\<close> and on the set of the voting members of \<open>S\<close>, and inserting into
  \<open>S\<close> a member that is not a voting member (a non-voting one, or an id the configuration
  does not know) does not change it.
\<close>

theorem is_quorum_voting_only:
  assumes "std_set_inv S" and "std_set_inv S'"
    and "set S' = set S \<inter> set (voting_members c)"
    and "set_count (voting_members c) m = 0"
  shows "is_quorum c S' = is_quorum c S \<and> is_quorum c (set_insert m S) = is_quorum c S"
proof -
  have "set S' \<inter> set (voting_members c) = set S \<inter> set (voting_members c)"
    using assms(3) by auto
  with assms(1,2) have a: "is_quorum c S' = is_quorum c S"
    by (rule is_quorum_cong)
  have "m \<notin> set (voting_members c)"
    using assms(4) by (simp add: set_count_eq split: if_splits)
  then have "set (set_insert m S) \<inter> set (voting_members c) = set S \<inter> set (voting_members c)"
    by (simp add: set_set_insert)
  moreover have "std_set_inv (set_insert m S)"
    using assms(1) by (rule std_set_inv_insert)
  ultimately have "is_quorum c (set_insert m S) = is_quorum c S"
    using assms(1) by (intro is_quorum_cong)
  with a show ?thesis by simp
qed

theorem is_quorum_voting_only_witness:
  "is_quorum \<lparr>voting_members = [raft_member_id_t 1, raft_member_id_t 2, raft_member_id_t 3],
              non_voting_members = [raft_member_id_t 4]\<rparr>
     [raft_member_id_t 1, raft_member_id_t 3] =
   is_quorum \<lparr>voting_members = [raft_member_id_t 1, raft_member_id_t 2, raft_member_id_t 3],
              non_voting_members = [raft_member_id_t 4]\<rparr>
     [raft_member_id_t 1, raft_member_id_t 3, raft_member_id_t 4, raft_member_id_t 9]
   \<and> is_quorum \<lparr>voting_members = [raft_member_id_t 1, raft_member_id_t 2, raft_member_id_t 3],
              non_voting_members = [raft_member_id_t 4]\<rparr>
     (set_insert (raft_member_id_t 7)
        [raft_member_id_t 1, raft_member_id_t 3, raft_member_id_t 4, raft_member_id_t 9]) =
   is_quorum \<lparr>voting_members = [raft_member_id_t 1, raft_member_id_t 2, raft_member_id_t 3],
              non_voting_members = [raft_member_id_t 4]\<rparr>
     [raft_member_id_t 1, raft_member_id_t 3, raft_member_id_t 4, raft_member_id_t 9]"
proof -
  let ?c = "\<lparr>voting_members = [raft_member_id_t 1, raft_member_id_t 2, raft_member_id_t 3],
              non_voting_members = [raft_member_id_t 4]\<rparr>"
  let ?S = "[raft_member_id_t 1, raft_member_id_t 3, raft_member_id_t 4, raft_member_id_t 9]"
  let ?S' = "[raft_member_id_t 1, raft_member_id_t 3]"
  have a: "std_set_inv ?S"
    by (simp add: std_set_inv_def member_less_def)
  have b: "std_set_inv ?S'"
    by (simp add: std_set_inv_def member_less_def)
  have c: "set ?S' = set ?S \<inter> set (voting_members ?c)"
    by auto
  have d: "set_count (voting_members ?c) (raft_member_id_t 7) = 0"
    by (simp add: set_count_def member_less_def)
  show ?thesis
    by (rule is_quorum_voting_only [OF a b c d])
qed

section \<open>Claims about the log\<close>

text \<open>
  C3. For an index \<open>i\<close> with \<open>prev_index \<le> i \<le> get_latest_index()\<close>, \<open>get_entry_term(i)\<close>
  returns a value: \<open>prev_term\<close> at \<open>prev_index\<close>, otherwise the term of the entry stored for
  index \<open>i\<close>, which is element \<open>i - prev_index - 1\<close> of \<open>entries\<close> and is what
  \<open>get_entry_ref(i)\<close> returns. For an index \<open>j\<close> outside that range a \<open>guarantee\<close> fails
  and no value is returned.
\<close>

theorem get_entry_term_contract:
  "(prev_index l \<le> i \<and> i \<le> get_latest_index l \<longrightarrow>
      get_entry_term l i =
        Inr (if i = prev_index l then prev_term l
             else entry_term (entries l ! (unat i - unat (prev_index l) - 1)))
      \<and> (i \<noteq> prev_index l \<longrightarrow>
            unat i - unat (prev_index l) - 1 < length (entries l)
            \<and> get_entry_ref l i = Inr (entries l ! (unat i - unat (prev_index l) - 1))))
   \<and> (j < prev_index l \<or> get_latest_index l < j \<longrightarrow>
        (\<exists>msg. get_entry_term l j = Inl (guarantee_failed msg)))"
proof -
  have inside: "get_entry_term l i =
        Inr (if i = prev_index l then prev_term l
             else entry_term (entries l ! (unat i - unat (prev_index l) - 1)))
      \<and> (i \<noteq> prev_index l \<longrightarrow>
            unat i - unat (prev_index l) - 1 < length (entries l)
            \<and> get_entry_ref l i = Inr (entries l ! (unat i - unat (prev_index l) - 1)))"
    if le: "prev_index l \<le> i" and up: "i \<le> get_latest_index l"
  proof (cases "i = prev_index l")
    case True
    then show ?thesis
      using up by (simp add: get_entry_term_prev)
  next
    case False
    with le have lt: "prev_index l < i"
      by simp
    show ?thesis
      using False get_entry_term_in_range [OF lt up] get_entry_ref_in_range [OF lt up]
      by simp
  qed
  have outside: "\<exists>msg. get_entry_term l j = Inl (guarantee_failed msg)"
    if "j < prev_index l \<or> get_latest_index l < j"
    using that by (auto simp: get_entry_term_def not_le)
  show ?thesis
    using inside outside by blast
qed


theorem get_entry_term_contract_witness:
  "get_entry_term
     \<lparr>prev_index = 5, prev_term = 2,
      entries = [\<lparr>entry_type = noop, entry_term = 3, entry_change = None :: nat option,
                  entry_config = None\<rparr>,
                 \<lparr>entry_type = regular, entry_term = 4, entry_change = Some 8,
                  entry_config = None\<rparr>]\<rparr> 7 = Inr 4
   \<and> get_entry_term
     \<lparr>prev_index = 5, prev_term = 2,
      entries = [\<lparr>entry_type = noop, entry_term = 3, entry_change = None :: nat option,
                  entry_config = None\<rparr>,
                 \<lparr>entry_type = regular, entry_term = 4, entry_change = Some 8,
                  entry_config = None\<rparr>]\<rparr> 5 = Inr 2
   \<and> (\<exists>msg. get_entry_term
     \<lparr>prev_index = 5, prev_term = 2,
      entries = [\<lparr>entry_type = noop, entry_term = 3, entry_change = None :: nat option,
                  entry_config = None\<rparr>,
                 \<lparr>entry_type = regular, entry_term = 4, entry_change = Some 8,
                  entry_config = None\<rparr>]\<rparr> 8 = Inl (guarantee_failed msg))
   \<and> (\<exists>msg. get_entry_term
     \<lparr>prev_index = 5, prev_term = 2,
      entries = [\<lparr>entry_type = noop, entry_term = 3, entry_change = None :: nat option,
                  entry_config = None\<rparr>,
                 \<lparr>entry_type = regular, entry_term = 4, entry_change = Some 8,
                  entry_config = None\<rparr>]\<rparr> 4 = Inl (guarantee_failed msg))"
proof -
  let ?l = "\<lparr>prev_index = 5, prev_term = 2,
      entries = [\<lparr>entry_type = noop, entry_term = 3, entry_change = None :: nat option,
                  entry_config = None\<rparr>,
                 \<lparr>entry_type = regular, entry_term = 4, entry_change = Some 8,
                  entry_config = None\<rparr>]\<rparr>"
  have latest: "get_latest_index ?l = 7"
    by (simp add: get_latest_index_def)
  show ?thesis
    using get_entry_term_contract [of ?l 7 8] get_entry_term_contract [of ?l 5 4]
    by (simp add: latest)
qed

text \<open>
  C4. For an index \<open>i\<close> with \<open>prev_index < i \<le> get_latest_index()\<close>, \<open>delete_entries_to(i)\<close>
  returns normally; it removes the first \<open>i - prev_index\<close> entries, which are the entries
  at the indices up to \<open>i\<close>, and keeps the others in order; \<open>prev_index\<close> becomes \<open>i\<close> and
  \<open>prev_term\<close> the term that \<open>get_entry_term(i)\<close> gave before the call. For an index \<open>j\<close>
  above \<open>get_latest_index()\<close> a \<open>guarantee\<close> fails.
\<close>

theorem delete_entries_to_contract:
  "(prev_index l < i \<and> i \<le> get_latest_index l \<longrightarrow>
      delete_entries_to l i =
        Inr \<lparr>prev_index = i,
             prev_term = entry_term (entries l ! (unat i - unat (prev_index l) - 1)),
             entries = drop (unat i - unat (prev_index l)) (entries l)\<rparr>
      \<and> unat i - unat (prev_index l) \<le> length (entries l)
      \<and> get_entry_term l i =
          Inr (entry_term (entries l ! (unat i - unat (prev_index l) - 1))))
   \<and> (get_latest_index l < j \<longrightarrow>
        (\<exists>msg. delete_entries_to l j = Inl (guarantee_failed msg)))"
proof -
  have inside: "delete_entries_to l i =
        Inr \<lparr>prev_index = i,
             prev_term = entry_term (entries l ! (unat i - unat (prev_index l) - 1)),
             entries = drop (unat i - unat (prev_index l)) (entries l)\<rparr>
      \<and> unat i - unat (prev_index l) \<le> length (entries l)
      \<and> get_entry_term l i =
          Inr (entry_term (entries l ! (unat i - unat (prev_index l) - 1)))"
    if lt: "prev_index l < i" and up: "i \<le> get_latest_index l"
  proof -
    from lt have le: "prev_index l \<le> i"
      by simp
    show ?thesis
      using delete_entries_to_in_range [OF lt up] offset_le_length [OF le up]
        get_entry_term_in_range [OF lt up]
      by simp
  qed
  have outside: "\<exists>msg. delete_entries_to l j = Inl (guarantee_failed msg)"
    if "get_latest_index l < j"
    using that by (auto simp: delete_entries_to_def not_le)
  show ?thesis
    using inside outside by blast
qed

theorem delete_entries_to_contract_witness:
  "delete_entries_to
     \<lparr>prev_index = 5, prev_term = 2,
      entries = [\<lparr>entry_type = noop, entry_term = 3, entry_change = None :: nat option,
                  entry_config = None\<rparr>,
                 \<lparr>entry_type = regular, entry_term = 4, entry_change = Some 8,
                  entry_config = None\<rparr>,
                 \<lparr>entry_type = regular, entry_term = 6, entry_change = Some 9,
                  entry_config = None\<rparr>]\<rparr> 7 =
     Inr \<lparr>prev_index = 7, prev_term = 4,
          entries = [\<lparr>entry_type = regular, entry_term = 6, entry_change = Some 9,
                      entry_config = None\<rparr>]\<rparr>
   \<and> (\<exists>msg. delete_entries_to
     \<lparr>prev_index = 5, prev_term = 2,
      entries = [\<lparr>entry_type = noop, entry_term = 3, entry_change = None :: nat option,
                  entry_config = None\<rparr>,
                 \<lparr>entry_type = regular, entry_term = 4, entry_change = Some 8,
                  entry_config = None\<rparr>,
                 \<lparr>entry_type = regular, entry_term = 6, entry_change = Some 9,
                  entry_config = None\<rparr>]\<rparr> 9 = Inl (guarantee_failed msg))"
proof -
  let ?l = "\<lparr>prev_index = 5, prev_term = 2,
      entries = [\<lparr>entry_type = noop, entry_term = 3, entry_change = None :: nat option,
                  entry_config = None\<rparr>,
                 \<lparr>entry_type = regular, entry_term = 4, entry_change = Some 8,
                  entry_config = None\<rparr>,
                 \<lparr>entry_type = regular, entry_term = 6, entry_change = Some 9,
                  entry_config = None\<rparr>]\<rparr>"
  have latest: "get_latest_index ?l = 8"
    by (simp add: get_latest_index_def)
  show ?thesis
    using delete_entries_to_contract [of ?l 7 9]
    by (simp add: latest)
qed

text \<open>
  C5. For an index \<open>i\<close> with \<open>prev_index < i \<le> get_latest_index()\<close>,
  \<open>delete_entries_from(i)\<close> returns normally and keeps exactly the first
  \<open>i - prev_index - 1\<close> entries: afterwards \<open>get_latest_index()\<close> is \<open>i - 1\<close>, \<open>prev_index\<close>
  and \<open>prev_term\<close> are as before, and every index \<open>j\<close> with \<open>prev_index < j < i\<close> still
  reads the entry it read before.
\<close>

theorem delete_entries_from_contract:
  assumes "prev_index l < i" and "i \<le> get_latest_index l"
  shows "\<exists>l'. delete_entries_from l i = Inr l'
           \<and> entries l' = take (unat i - unat (prev_index l) - 1) (entries l)
           \<and> get_latest_index l' = i - 1
           \<and> unat (get_latest_index l') = unat i - 1
           \<and> prev_index l' = prev_index l
           \<and> prev_term l' = prev_term l
           \<and> (prev_index l < j \<and> j < i \<longrightarrow>
                get_entry_ref l' j = get_entry_ref l j
                \<and> get_entry_ref l j = Inr (entries l ! (unat j - unat (prev_index l) - 1)))"
proof -
  let ?k = "unat i - unat (prev_index l) - 1"
  let ?l' = "l\<lparr>entries := take ?k (entries l)\<rparr>"
  have le: "prev_index l \<le> i"
    using assms(1) by simp
  have k: "?k < length (entries l)"
    using assms by (rule get_entry_ref_in_range(1))
  have res: "delete_entries_from l i = Inr ?l'"
    using assms by (rule delete_entries_from_in_range)
  have "(of_nat ?k :: 64 word) = of_nat (unat i - unat (prev_index l)) - 1"
    using assms(1) by (simp add: word_less_nat_alt)
  then have "(of_nat ?k :: 64 word) = i - prev_index l - 1"
    by (simp add: of_nat_offset [OF le])
  then have latest: "get_latest_index ?l' = i - 1"
    using k by (simp add: get_latest_index_def min_def)
  have "i \<noteq> 0"
    using assms(1) by auto
  then have "unat (i - 1) = unat i - 1"
    by (rule unat_minus_one)
  then have ulatest: "unat (get_latest_index ?l') = unat i - 1"
    by (simp only: latest)
  have frame: "get_entry_ref ?l' j = get_entry_ref l j
                \<and> get_entry_ref l j = Inr (entries l ! (unat j - unat (prev_index l) - 1))"
    if lo: "prev_index l < j" and hi: "j < i"
  proof -
    have hi': "j \<le> get_latest_index ?l'"
      using hi ulatest by (simp add: word_le_nat_alt word_less_nat_alt)
    have "j \<le> get_latest_index l"
      using hi assms(2) by simp
    with lo have old: "get_entry_ref l j = Inr (entries l ! (unat j - unat (prev_index l) - 1))"
      by (rule get_entry_ref_in_range(2))
    have lo': "prev_index ?l' < j"
      using lo by simp
    have new: "get_entry_ref ?l' j = Inr (entries ?l' ! (unat j - unat (prev_index ?l') - 1))"
      using lo' hi' by (rule get_entry_ref_in_range(2))
    have "unat j < unat i" and "unat (prev_index l) < unat j"
      using lo hi by (simp_all add: word_less_nat_alt)
    then have "unat j - unat (prev_index l) - 1 < ?k"
      by arith
    then show ?thesis
      using old new by simp
  qed
  show ?thesis
    using res latest ulatest frame by (intro exI [of _ ?l']) simp
qed


theorem delete_entries_from_contract_witness:
  "\<exists>l'. delete_entries_from
     \<lparr>prev_index = 5, prev_term = 2,
      entries = [\<lparr>entry_type = noop, entry_term = 3, entry_change = None :: nat option,
                  entry_config = None\<rparr>,
                 \<lparr>entry_type = regular, entry_term = 4, entry_change = Some 8,
                  entry_config = None\<rparr>,
                 \<lparr>entry_type = regular, entry_term = 6, entry_change = Some 9,
                  entry_config = None\<rparr>]\<rparr> 7 = Inr l'
     \<and> entries l' = [\<lparr>entry_type = noop, entry_term = 3, entry_change = None,
                       entry_config = None\<rparr>]
     \<and> get_latest_index l' = 6
     \<and> prev_index l' = 5
     \<and> prev_term l' = 2
     \<and> get_entry_ref l' 6 = Inr \<lparr>entry_type = noop, entry_term = 3, entry_change = None,
                                  entry_config = None\<rparr>"
proof -
  let ?l = "\<lparr>prev_index = 5, prev_term = 2,
      entries = [\<lparr>entry_type = noop, entry_term = 3, entry_change = None :: nat option,
                  entry_config = None\<rparr>,
                 \<lparr>entry_type = regular, entry_term = 4, entry_change = Some 8,
                  entry_config = None\<rparr>,
                 \<lparr>entry_type = regular, entry_term = 6, entry_change = Some 9,
                  entry_config = None\<rparr>]\<rparr>"
  have lo: "prev_index ?l < 7"
    by simp
  have hi: "7 \<le> get_latest_index ?l"
    by (simp add: get_latest_index_def)
  show ?thesis
    using delete_entries_from_contract [OF lo hi, of 6] by auto
qed

text \<open>
  C9. For an index \<open>i\<close> with \<open>prev_index < i \<le> get_latest_index()\<close>, \<open>delete_entries_to(i)\<close>
  leaves \<open>get_latest_index()\<close> as it was, and for every index \<open>j\<close> with
  \<open>i \<le> j \<le> get_latest_index()\<close> the call \<open>get_entry_term(j)\<close> returns the same term after
  the deletion as before it.
\<close>

theorem delete_entries_to_preserves_terms:
  assumes "prev_index l < i" and "i \<le> get_latest_index l"
    and "i \<le> j" and "j \<le> get_latest_index l"
  shows "\<exists>l' t. delete_entries_to l i = Inr l'
           \<and> get_latest_index l' = get_latest_index l
           \<and> get_entry_term l j = Inr t
           \<and> get_entry_term l' j = Inr t"
proof -
  let ?d = "unat i - unat (prev_index l)"
  let ?l' = "\<lparr>prev_index = i,
              prev_term = entry_term (entries l ! (?d - 1)),
              entries = drop ?d (entries l)\<rparr>"
  have le: "prev_index l \<le> i"
    using assms(1) by simp
  have d: "?d \<le> length (entries l)"
    using le assms(2) by (rule offset_le_length)
  have res: "delete_entries_to l i = Inr ?l'"
    using delete_entries_to_in_range [OF assms(1,2)] by simp
  have "(of_nat (length (entries l) - ?d) :: 64 word) = of_nat (length (entries l)) - of_nat ?d"
    using d by (rule of_nat_diff)
  then have latest: "get_latest_index ?l' = get_latest_index l"
    by (simp add: get_latest_index_def of_nat_offset [OF le])
  have lo: "prev_index l < j"
    using assms(1,3) by simp
  have old: "get_entry_term l j = Inr (entry_term (entries l ! (unat j - unat (prev_index l) - 1)))"
    using lo assms(4) by (rule get_entry_term_in_range)
  have new: "get_entry_term ?l' j =
               Inr (entry_term (entries l ! (unat j - unat (prev_index l) - 1)))"
  proof (cases "j = i")
    case True
    have "prev_index ?l' \<le> get_latest_index ?l'"
      using assms(2) by (simp only: latest) simp
    then have "get_entry_term ?l' (prev_index ?l') = Inr (prev_term ?l')"
      by (rule get_entry_term_prev)
    then show ?thesis
      using True by simp
  next
    case False
    then have lt: "prev_index ?l' < j"
      using assms(3) by simp
    have up: "j \<le> get_latest_index ?l'"
      using assms(4) by (simp only: latest)
    have n: "get_entry_term ?l' j =
               Inr (entry_term (entries ?l' ! (unat j - unat (prev_index ?l') - 1)))"
      using lt up by (rule get_entry_term_in_range)
    have "unat (prev_index l) < unat i" and "unat i < unat j"
      using assms(1) lt by (simp_all add: word_less_nat_alt)
    then have "?d + (unat j - unat i - 1) = unat j - unat (prev_index l) - 1"
      by arith
    then show ?thesis
      using n d by simp
  qed
  show ?thesis
    using res latest old new by blast
qed

theorem delete_entries_to_preserves_terms_witness:
  "\<exists>l'. delete_entries_to
     \<lparr>prev_index = 5, prev_term = 2,
      entries = [\<lparr>entry_type = noop, entry_term = 3, entry_change = None :: nat option,
                  entry_config = None\<rparr>,
                 \<lparr>entry_type = regular, entry_term = 4, entry_change = Some 8,
                  entry_config = None\<rparr>,
                 \<lparr>entry_type = regular, entry_term = 6, entry_change = Some 9,
                  entry_config = None\<rparr>]\<rparr> 7 = Inr l'
     \<and> get_latest_index l' = 8
     \<and> get_entry_term l' 8 = Inr 6"
proof -
  let ?l = "\<lparr>prev_index = 5, prev_term = 2,
      entries = [\<lparr>entry_type = noop, entry_term = 3, entry_change = None :: nat option,
                  entry_config = None\<rparr>,
                 \<lparr>entry_type = regular, entry_term = 4, entry_change = Some 8,
                  entry_config = None\<rparr>,
                 \<lparr>entry_type = regular, entry_term = 6, entry_change = Some 9,
                  entry_config = None\<rparr>]\<rparr>"
  have latest: "get_latest_index ?l = 8"
    by (simp add: get_latest_index_def)
  have lo: "prev_index ?l < 7"
    by simp
  have hi: "7 \<le> get_latest_index ?l"
    by (simp add: latest)
  have j1: "(7 :: 64 word) \<le> 8"
    by simp
  have j2: "8 \<le> get_latest_index ?l"
    by (simp add: latest)
  have old: "get_entry_term ?l 8 = Inr 6"
    by (simp add: get_entry_term_def get_entry_ref_def deque_at_def latest)
  show ?thesis
    using delete_entries_to_preserves_terms [OF lo hi j1 j2] old latest by auto
qed

text \<open>
  C10, as stated, at a log whose latest index is the largest \<open>uint64_t\<close>: the index
  computed after \<open>append\<close> wraps around to 0, which is not above \<open>prev_index\<close>, so reading
  the appended entry at the new latest index fails a \<open>guarantee\<close>.
\<close>

theorem append_readable_counterexample:
  "get_latest_index
     (append_entry \<lparr>prev_index = 18446744073709551615, prev_term = 1, entries = []\<rparr>
        \<lparr>entry_type = noop, entry_term = 1, entry_change = None :: nat option,
         entry_config = None\<rparr>) = 0
   \<and> get_entry_ref
     (append_entry \<lparr>prev_index = 18446744073709551615, prev_term = 1, entries = []\<rparr>
        \<lparr>entry_type = noop, entry_term = 1, entry_change = None :: nat option,
         entry_config = None\<rparr>)
     (get_latest_index
        (append_entry \<lparr>prev_index = 18446744073709551615, prev_term = 1, entries = []\<rparr>
           \<lparr>entry_type = noop, entry_term = 1, entry_change = None :: nat option,
            entry_config = None\<rparr>)) =
     Inl (guarantee_failed ''the log doesn't go back this far'')"
  by (simp add: append_entry_def get_latest_index_def get_entry_ref_def)

text \<open>
  C10, amended. For a log whose latest index can grow by one within \<open>uint64_t\<close>, that is
  with \<open>prev_index + |entries| + 1 < 2 ^ 64\<close>, \<open>append(e)\<close> leaves \<open>prev_index\<close>,
  \<open>prev_term\<close> and the entries stored before unchanged, every index \<open>j\<close> with
  \<open>prev_index < j \<le> get_latest_index()\<close> reads the entry it read before,
  \<open>get_latest_index()\<close> grows by exactly one, and \<open>e\<close> is the entry read at the new latest
  index.
\<close>

theorem append_frame:
  assumes "unat (prev_index l) + length (entries l) + 1 < 2 ^ 64"
  shows "prev_index (append_entry l e) = prev_index l
       \<and> prev_term (append_entry l e) = prev_term l
       \<and> take (length (entries l)) (entries (append_entry l e)) = entries l
       \<and> get_latest_index (append_entry l e) = get_latest_index l + 1
       \<and> unat (get_latest_index (append_entry l e)) = unat (get_latest_index l) + 1
       \<and> get_entry_ref (append_entry l e) (get_latest_index (append_entry l e)) = Inr e
       \<and> (prev_index l < j \<and> j \<le> get_latest_index l \<longrightarrow>
            get_entry_ref (append_entry l e) j = get_entry_ref l j
            \<and> get_entry_ref l j = Inr (entries l ! (unat j - unat (prev_index l) - 1)))"
proof -
  let ?l' = "append_entry l e"
  let ?n = "length (entries l)"
  have fields: "prev_index ?l' = prev_index l" "prev_term ?l' = prev_term l"
    "entries ?l' = entries l @ [e]"
    by (simp_all add: append_entry_def)
  have latest: "get_latest_index ?l' = get_latest_index l + 1"
    by (simp add: get_latest_index_def fields)
  have u: "unat (get_latest_index l) = unat (prev_index l) + ?n"
    using assms by (simp add: unat_latest)
  have "unat (get_latest_index ?l') = (unat (prev_index ?l') + length (entries ?l')) mod 2 ^ 64"
    by (rule unat_latest)
  then have u': "unat (get_latest_index ?l') = unat (prev_index l) + ?n + 1"
    using assms by (simp add: fields)
  have lt: "prev_index ?l' < get_latest_index ?l'"
    by (simp add: word_less_nat_alt u' fields(1))
  have "get_entry_ref ?l' (get_latest_index ?l') =
          Inr (entries ?l' ! (unat (get_latest_index ?l') - unat (prev_index ?l') - 1))"
    using lt by (rule get_entry_ref_in_range(2)) simp
  then have new: "get_entry_ref ?l' (get_latest_index ?l') = Inr e"
    by (simp add: u' fields)
  have frame: "get_entry_ref ?l' j = get_entry_ref l j
            \<and> get_entry_ref l j = Inr (entries l ! (unat j - unat (prev_index l) - 1))"
    if lo: "prev_index l < j" and hi: "j \<le> get_latest_index l"
  proof -
    have k: "unat j - unat (prev_index l) - 1 < ?n"
      using lo hi by (rule get_entry_ref_in_range(1))
    have old: "get_entry_ref l j = Inr (entries l ! (unat j - unat (prev_index l) - 1))"
      using lo hi by (rule get_entry_ref_in_range(2))
    have lo': "prev_index ?l' < j"
      using lo by (simp add: fields)
    have hi': "j \<le> get_latest_index ?l'"
      using hi by (simp add: word_le_nat_alt u u')
    have "get_entry_ref ?l' j = Inr (entries ?l' ! (unat j - unat (prev_index ?l') - 1))"
      using lo' hi' by (rule get_entry_ref_in_range(2))
    then show ?thesis
      using old k by (simp add: fields nth_append)
  qed
  show ?thesis
    using fields latest u u' new frame by simp
qed

theorem append_frame_witness:
  "get_latest_index
     (append_entry \<lparr>prev_index = 5, prev_term = 2,
              entries = [\<lparr>entry_type = noop, entry_term = 3,
                          entry_change = None :: nat option, entry_config = None\<rparr>]\<rparr>
        \<lparr>entry_type = regular, entry_term = 4, entry_change = Some 8,
         entry_config = None\<rparr>) = 7
   \<and> get_entry_ref
     (append_entry \<lparr>prev_index = 5, prev_term = 2,
              entries = [\<lparr>entry_type = noop, entry_term = 3,
                          entry_change = None :: nat option, entry_config = None\<rparr>]\<rparr>
        \<lparr>entry_type = regular, entry_term = 4, entry_change = Some 8,
         entry_config = None\<rparr>) 7 =
     Inr \<lparr>entry_type = regular, entry_term = 4, entry_change = Some 8, entry_config = None\<rparr>
   \<and> get_entry_ref
     (append_entry \<lparr>prev_index = 5, prev_term = 2,
              entries = [\<lparr>entry_type = noop, entry_term = 3,
                          entry_change = None :: nat option, entry_config = None\<rparr>]\<rparr>
        \<lparr>entry_type = regular, entry_term = 4, entry_change = Some 8,
         entry_config = None\<rparr>) 6 =
     Inr \<lparr>entry_type = noop, entry_term = 3, entry_change = None, entry_config = None\<rparr>"
proof -
  let ?l = "\<lparr>prev_index = 5, prev_term = 2,
              entries = [\<lparr>entry_type = noop, entry_term = 3,
                          entry_change = None :: nat option, entry_config = None\<rparr>]\<rparr>"
  let ?e = "\<lparr>entry_type = regular, entry_term = 4, entry_change = Some (8 :: nat),
             entry_config = None\<rparr>"
  have room: "unat (prev_index ?l) + length (entries ?l) + 1 < 2 ^ 64"
    by simp
  have latest: "get_latest_index ?l = 6"
    by (simp add: get_latest_index_def)
  note w = append_frame [OF room, of ?e 6]
  from w have a: "get_latest_index (append_entry ?l ?e) = get_latest_index ?l + 1"
    by blast
  from w have b: "get_entry_ref (append_entry ?l ?e) (get_latest_index (append_entry ?l ?e)) = Inr ?e"
    by blast
  from w have c: "prev_index ?l < 6 \<and> 6 \<le> get_latest_index ?l \<longrightarrow>
                    get_entry_ref (append_entry ?l ?e) 6 = get_entry_ref ?l 6
                    \<and> get_entry_ref ?l 6 = Inr (entries ?l ! (unat (6 :: 64 word) - unat (prev_index ?l) - 1))"
    by blast
  have a': "get_latest_index (append_entry ?l ?e) = 7"
    using a by (simp add: latest)
  have c': "get_entry_ref (append_entry ?l ?e) 6 = Inr (entries ?l ! 0)"
    using c by (simp add: latest)
  show ?thesis
    using a' b c' by simp
qed

section \<open>Claims about the persistent state\<close>

text \<open>
  C7. \<open>make_initial(s, c)\<close> is the persistent state with term 0, no vote, \<open>s\<close> as snapshot
  state, \<open>c\<close> as a single (non-joint) snapshot configuration, and an empty log with
  \<open>prev_index\<close> 0 and \<open>prev_term\<close> 0. The value is a function of \<open>s\<close> and \<open>c\<close> alone, so
  founding members that pass equal arguments obtain equal states.
\<close>

theorem make_initial_value:
  "current_term (make_initial s c) = 0
   \<and> is_nil (voted_for (make_initial s c))
   \<and> snapshot_state (make_initial s c) = s
   \<and> snapshot_config (make_initial s c) = \<lparr>config = c, new_config = None\<rparr>
   \<and> \<not> is_joint_consensus (snapshot_config (make_initial s c))
   \<and> prev_index (log (make_initial s c)) = 0
   \<and> prev_term (log (make_initial s c)) = 0
   \<and> entries (log (make_initial s c)) = []
   \<and> get_latest_index (log (make_initial s c)) = 0
   \<and> make_initial s c =
       \<lparr>current_term = 0, voted_for = raft_member_id_t nil_uuid, snapshot_state = s,
        snapshot_config = \<lparr>config = c, new_config = None\<rparr>,
        log = \<lparr>prev_index = 0, prev_term = 0, entries = []\<rparr>\<rparr>"
  by (simp add: make_initial_def is_nil_def default_member_id_def is_joint_consensus_def
      get_latest_index_def)

theorem make_initial_value_witness:
  "snapshot_state
     (make_initial (7 :: nat)
        \<lparr>voting_members = [raft_member_id_t 1, raft_member_id_t 2],
         non_voting_members = []\<rparr>
      :: (nat, nat) raft_persistent_state_t) = 7
   \<and> snapshot_config
       (make_initial (7 :: nat)
          \<lparr>voting_members = [raft_member_id_t 1, raft_member_id_t 2],
           non_voting_members = []\<rparr>
        :: (nat, nat) raft_persistent_state_t) =
     \<lparr>config = \<lparr>voting_members = [raft_member_id_t 1, raft_member_id_t 2],
                 non_voting_members = []\<rparr>,
      new_config = None\<rparr>
   \<and> is_nil (voted_for
       (make_initial (7 :: nat)
          \<lparr>voting_members = [raft_member_id_t 1, raft_member_id_t 2],
           non_voting_members = []\<rparr>
        :: (nat, nat) raft_persistent_state_t))"
  using make_initial_value
          [of "7 :: nat"
              "\<lparr>voting_members = [raft_member_id_t 1, raft_member_id_t 2],
                non_voting_members = []\<rparr>",
           where ?'b = nat]
  by blast

end
